theory Spec2Isabelle
  imports Complex_Main "HOL-Library.Word"
begin

section \<open>Values of the program\<close>

text \<open>
  The program is one Python file, \<^verbatim>\<open>src/main.py\<close>. It raises no exception of its own and
  catches none: every failure is a built-in exception of Python, numpy or Pillow that leaves
  \<^verbatim>\<open>main\<close>. The exceptions that the modelled code can raise are the constructors below.
\<close>

datatype error =
    ZeroDivisionError
  | AttributeError string
  | ValueError
  | AxisError
  | IndexError
  | OverflowError
  | OSError

text \<open>
  numpy element types: the frame and the rendered glyphs are \<^verbatim>\<open>uint8\<close>, the glyph table is
  converted to \<^verbatim>\<open>int16\<close>, and \<^verbatim>\<open>sum\<close> of an \<^verbatim>\<open>int16\<close> array accumulates in numpy's
  default integer, taken here as 64 bits wide (as on every 64-bit Linux and macOS, and on
  every platform since numpy 2).
\<close>

type_synonym u8 = "8 word"
type_synonym i16 = "16 word"
type_synonym i64 = "64 word"

text \<open>
  A two-dimensional C-contiguous array: its shape and its flat buffer in row-major order.
\<close>

record 'a ndarray =
  nrows :: nat
  ncols :: nat
  flat :: "'a list"

definition item :: "'a ndarray \<Rightarrow> nat \<Rightarrow> nat \<Rightarrow> 'a" where
  "item a y x = flat a ! (y * ncols a + x)"

text \<open>\<^verbatim>\<open>np.asarray(img)\<close>: the array of shape \<open>(h, w)\<close> holding the pixel at row \<open>y\<close>, column \<open>x\<close>.\<close>

definition asarray :: "nat \<Rightarrow> nat \<Rightarrow> (nat \<Rightarrow> nat \<Rightarrow> 'a) \<Rightarrow> 'a ndarray" where
  "asarray h w px = \<lparr>nrows = h, ncols = w, flat = concat (map (\<lambda>y. map (px y) [0..<w]) [0..<h])\<rparr>"

definition tolist :: "'a ndarray \<Rightarrow> 'a list list" where
  "tolist a = map (\<lambda>y. map (item a y) [0..<ncols a]) [0..<nrows a]"

text \<open>Python's \<^verbatim>\<open>divmod\<close> and \<^verbatim>\<open>%\<close> on integers: floor division, and an exception for a zero divisor.\<close>

definition py_divmod :: "int \<Rightarrow> int \<Rightarrow> error + int \<times> int" where
  "py_divmod a b = (if b = 0 then Inl ZeroDivisionError else Inr (a div b, a mod b))"

definition py_mod :: "int \<Rightarrow> int \<Rightarrow> error + int" where
  "py_mod a b = (if b = 0 then Inl ZeroDivisionError else Inr (a mod b))"

definition py_floordiv :: "int \<Rightarrow> int \<Rightarrow> error + int" where
  "py_floordiv a b = (if b = 0 then Inl ZeroDivisionError else Inr (a div b))"

section \<open>Padding\<close>

text \<open>
  \<^verbatim>\<open>np.pad(a, (axis0, axis1), "edge")\<close> with a pair of widths (before, after) for each
  axis. A negative width is refused
  (\<^verbatim>\<open>ValueError\<close>), and so is a positive width on an axis of length 0. Otherwise the result
  repeats the nearest edge sample: index \<open>i\<close> of the padded axis reads index
  \<open>edge_index n before i\<close> of the original axis of length \<open>n\<close>.
\<close>

definition edge_index :: "nat \<Rightarrow> nat \<Rightarrow> nat \<Rightarrow> nat" where
  "edge_index n before i = (if i < before then 0 else min (i - before) (n - 1))"

definition np_pad_edge :: "'a ndarray \<Rightarrow> int \<times> int \<Rightarrow> int \<times> int \<Rightarrow> error + 'a ndarray" where
  "np_pad_edge a axis0 axis1 =
     (let before0 = fst axis0; after0 = snd axis0; before1 = fst axis1; after1 = snd axis1 in
      if before0 < 0 \<or> after0 < 0 \<or> before1 < 0 \<or> after1 < 0 then Inl ValueError
      else if nrows a = 0 \<and> (0 < before0 \<or> 0 < after0) then Inl ValueError
      else if ncols a = 0 \<and> (0 < before1 \<or> 0 < after1) then Inl ValueError
      else Inr (asarray (nat before0 + nrows a + nat after0) (nat before1 + ncols a + nat after1)
                 (\<lambda>y x. item a (edge_index (nrows a) (nat before0) y)
                               (edge_index (ncols a) (nat before1) x))))"

definition pad_with :: "'a ndarray \<Rightarrow> int \<Rightarrow> int \<Rightarrow> error + 'a ndarray" where
  "pad_with a h_padding v_padding =
     (let left = h_padding div 2;
          right = h_padding - left;
          top = v_padding div 2;
          bottom = v_padding - top
      in np_pad_edge a (top, bottom) (left, right))"

section \<open>Tiling\<close>

text \<open>
  \<^verbatim>\<open>to_tiles\<close> returns a four-dimensional view of the frame's buffer: a shape, the stride of
  each axis (in elements) and the shared buffer. \<^verbatim>\<open>reshape\<close> gives the C-order strides of the
  new shape; \<^verbatim>\<open>swapaxes(1, 2)\<close> exchanges the shape and stride entries of axes 1 and 2.

  \<^verbatim>\<open>reshape\<close> refuses a shape whose product is not the array's size. A negative entry is
  refused as well: numpy reads a single \<open>-1\<close> as a dimension to infer, but in \<^verbatim>\<open>to_tiles\<close> a
  negative \<^verbatim>\<open>tile_height\<close> comes with a negative \<^verbatim>\<open>h // tile_height\<close> or with an empty
  array, where the inference fails too (and likewise for the width).
\<close>

record 'a view4 =
  shape :: "nat \<times> nat \<times> nat \<times> nat"
  strides :: "nat \<times> nat \<times> nat \<times> nat"
  buffer :: "'a list"

definition reshape4 :: "'a ndarray \<Rightarrow> int \<Rightarrow> int \<Rightarrow> int \<Rightarrow> int \<Rightarrow> error + 'a view4" where
  "reshape4 a d0 d1 d2 d3 =
     (if d0 < 0 \<or> d1 < 0 \<or> d2 < 0 \<or> d3 < 0 then Inl ValueError
      else if d0 * d1 * d2 * d3 = int (nrows a * ncols a)
      then Inr \<lparr>shape = (nat d0, nat d1, nat d2, nat d3),
                strides = (nat (d1 * d2 * d3), nat (d2 * d3), nat d3, 1),
                buffer = flat a\<rparr>
      else Inl ValueError)"

definition swapaxes12 :: "'a view4 \<Rightarrow> 'a view4" where
  "swapaxes12 v =
     (case (shape v, strides v) of ((d0, d1, d2, d3), (s0, s1, s2, s3)) \<Rightarrow>
        \<lparr>shape = (d0, d2, d1, d3), strides = (s0, s2, s1, s3), buffer = buffer v\<rparr>)"

definition to_tiles :: "'a ndarray \<Rightarrow> int \<Rightarrow> int \<Rightarrow> error + 'a view4" where
  "to_tiles frame tile_width tile_height =
     (let h = int (nrows frame); w = int (ncols frame) in
      case py_floordiv h tile_height of Inl e \<Rightarrow> Inl e | Inr v_tile_count \<Rightarrow>
      case py_floordiv w tile_width of Inl e \<Rightarrow> Inl e | Inr h_tile_count \<Rightarrow>
      case reshape4 frame v_tile_count tile_height h_tile_count tile_width of
        Inl e \<Rightarrow> Inl e
      | Inr r \<Rightarrow> Inr (swapaxes12 r))"

definition item4 :: "'a view4 \<Rightarrow> nat \<Rightarrow> nat \<Rightarrow> nat \<Rightarrow> nat \<Rightarrow> 'a" where
  "item4 v i j a b =
     (case strides v of (s0, s1, s2, s3) \<Rightarrow> buffer v ! (i * s0 + j * s1 + a * s2 + b * s3))"

text \<open>
  Iterating the view yields its rows \<open>tiles[i]\<close>, and iterating a row yields the tiles
  \<open>tiles[i][j]\<close>, each a two-dimensional array read here as a list of pixel rows.
\<close>

definition tile_at :: "'a view4 \<Rightarrow> nat \<Rightarrow> nat \<Rightarrow> 'a list list" where
  "tile_at v i j =
     (case shape v of (d0, d1, d2, d3) \<Rightarrow>
        map (\<lambda>a. map (\<lambda>b. item4 v i j a b) [0..<d3]) [0..<d2])"

definition tile_rows :: "'a view4 \<Rightarrow> 'a list list list list" where
  "tile_rows v =
     (case shape v of (d0, d1, d2, d3) \<Rightarrow>
        map (\<lambda>i. map (\<lambda>j. tile_at v i j) [0..<d1]) [0..<d0])"

section \<open>Matching\<close>

text \<open>
  \<^verbatim>\<open>char_set[np.abs(char_glyphs - tile).sum((1, 2)).argmin()]\<close>.

  \<^verbatim>\<open>char_glyphs - tile\<close>: the \<^verbatim>\<open>uint8\<close> tile is converted to \<^verbatim>\<open>int16\<close> and subtracted with
  16-bit wrap-around; \<^verbatim>\<open>np.abs\<close> negates the negative entries (again in 16 bits);
  \<^verbatim>\<open>sum((1, 2))\<close> adds the entries of each glyph in 64 bits; \<^verbatim>\<open>argmin\<close> scans the sums from
  index 0 and moves on only to a strictly smaller value.
\<close>

definition np_abs16 :: "i16 \<Rightarrow> i16" where
  "np_abs16 x = (if x <s 0 then - x else x)"

definition absdiff :: "i16 \<Rightarrow> u8 \<Rightarrow> i16" where
  "absdiff g t = np_abs16 (g - ucast t)"

definition glyph_distance :: "i16 list list \<Rightarrow> u8 list list \<Rightarrow> i64" where
  "glyph_distance g t = sum_list (map scast (concat (map2 (map2 absdiff) g t)))"

fun argmin_loop :: "i64 list \<Rightarrow> nat \<Rightarrow> i64 \<Rightarrow> nat \<Rightarrow> nat" where
  "argmin_loop [] i mp min_ind = min_ind"
| "argmin_loop (x # xs) i mp min_ind =
     (if x <s mp then argmin_loop xs (Suc i) x i else argmin_loop xs (Suc i) mp min_ind)"

definition argmin :: "i64 list \<Rightarrow> error + nat" where
  "argmin xs = (case xs of [] \<Rightarrow> Inl ValueError | x # r \<Rightarrow> Inr (argmin_loop r 1 x 0))"

definition shape2 :: "'a list list \<Rightarrow> nat \<times> nat" where
  "shape2 t = (length t, case t of [] \<Rightarrow> 0 | r # _ \<Rightarrow> length r)"

text \<open>
  \<^verbatim>\<open>char_glyphs\<close> has shape \<open>(len(char_set), tile_height, tile_width)\<close> and every tile has
  shape \<open>(tile_height, tile_width)\<close>, so the subtraction pairs each glyph with the tile pixel
  by pixel. Any other combination of shapes is a \<^verbatim>\<open>ValueError\<close> here (numpy would also stretch
  an axis of length 1, which \<^verbatim>\<open>main\<close> never presents).

  For an empty \<^verbatim>\<open>char_set\<close> the table is \<^verbatim>\<open>np.array([])\<close> of shape \<open>(0,)\<close>: against a tile of
  width other than 0 or 1 the subtraction cannot broadcast (\<^verbatim>\<open>ValueError\<close>); against a tile of
  width 0 or 1 it gives a two-dimensional array, and \<^verbatim>\<open>sum((1, 2))\<close> raises \<^verbatim>\<open>AxisError\<close>.
\<close>

definition closest_char :: "'c list \<Rightarrow> i16 list list list \<Rightarrow> u8 list list \<Rightarrow> error + 'c" where
  "closest_char char_set char_glyphs tile =
     (if char_glyphs = [] then (if snd (shape2 tile) \<le> 1 then Inl AxisError else Inl ValueError)
      else if list_all (\<lambda>g. shape2 g = shape2 tile \<and> list_all (\<lambda>r. length r = snd (shape2 tile)) g)
                char_glyphs
      then (case argmin (map (\<lambda>g. glyph_distance g tile) char_glyphs) of
              Inl e \<Rightarrow> Inl e
            | Inr k \<Rightarrow> if k < length char_set then Inr (char_set ! k) else Inl IndexError)
      else Inl ValueError)"


text \<open>
  \<^verbatim>\<open>np.array([...], dtype=np.int16)\<close>: the rendered \<^verbatim>\<open>uint8\<close> glyphs, converted value by value.
  An empty list gives the empty table.
\<close>

definition int16_table :: "u8 list list list \<Rightarrow> i16 list list list" where
  "int16_table glyphs = map (map (map ucast)) glyphs"

section \<open>Arguments and collaborators\<close>

text \<open>
  The namespace returned by \<^verbatim>\<open>parse_args\<close> has exactly the attributes that the parser
  declares, with their defaults already filled in. Python floats are a type parameter \<open>'f\<close>:
  the program's four floating-point expressions are parameters of the model.
\<close>

record 'f args =
  args_use_tile_dimensions :: bool
  args_contrast :: 'f
  args_char_set :: string
  args_font :: string
  args_font_size :: "int option"
  args_h_tile_count :: int
  args_v_tile_count :: "int option"
  args_tile_width :: 'f
  args_tile_height :: 'f

definition DEFAULT_FONT_SIZE :: int where
  "DEFAULT_FONT_SIZE = 16"

text \<open>
  \<^item> \<open>fl_round_aspect h_tile_count h w tile_width tile_height\<close> is
    \<^verbatim>\<open>round(h_tile_count * h/w * args.tile_width/args.tile_height)\<close>;
  \<^item> \<open>fl_floor_min tile_width tile_height a b\<close> is
    \<^verbatim>\<open>floor(min(tile_width / args.tile_width, tile_height / args.tile_height))\<close>;
  \<^item> \<open>fl_mul_int a k\<close> is \<^verbatim>\<open>a * k\<close> for a float \<open>a\<close> and an integer \<open>k\<close>;
  \<^item> \<open>fl_ceil a\<close> is \<^verbatim>\<open>ceil(a)\<close>.
  Each may raise (division by zero, overflow, a NaN).
\<close>

record 'f float_ops =
  fl_round_aspect :: "int \<Rightarrow> int \<Rightarrow> int \<Rightarrow> 'f \<Rightarrow> 'f \<Rightarrow> error + int"
  fl_floor_min :: "int \<Rightarrow> int \<Rightarrow> 'f \<Rightarrow> 'f \<Rightarrow> error + int"
  fl_mul_int :: "'f \<Rightarrow> int \<Rightarrow> error + 'f"
  fl_ceil :: "'f \<Rightarrow> error + int"

text \<open>
  The opened image: \<^verbatim>\<open>img.size\<close> is \<open>(w, h)\<close>, and \<open>luminance img c y x\<close> is the sample at row
  \<open>y\<close>, column \<open>x\<close> of \<^verbatim>\<open>ImageEnhance.Contrast(img.convert("L")).enhance(c)\<close>.
\<close>

record 'f image =
  img_size :: "nat \<times> nat"
  luminance :: "'f \<Rightarrow> nat \<Rightarrow> nat \<Rightarrow> u8"

text \<open>
  Pillow's font interface: \<^verbatim>\<open>ImageFont.truetype(name, size)\<close> loads a font or raises, and
  \<open>draw_text font tile_width tile_height c y x\<close> is the sample at row \<open>y\<close>, column \<open>x\<close> of a
  black \<open>tile_width \<times> tile_height\<close> image after \<^verbatim>\<open>draw.text\<close> has drawn \<open>c\<close> at its centre.
\<close>

record 'font pil =
  truetype :: "string \<Rightarrow> int \<Rightarrow> error + 'font"
  draw_text :: "'font \<Rightarrow> int \<Rightarrow> int \<Rightarrow> char \<Rightarrow> nat \<Rightarrow> nat \<Rightarrow> u8"

text \<open>\<^verbatim>\<open>Image.new\<close> refuses a negative width or height.\<close>

definition to_char_glyph :: "'font pil \<Rightarrow> 'font \<Rightarrow> int \<Rightarrow> int \<Rightarrow> char \<Rightarrow> error + u8 ndarray" where
  "to_char_glyph pil font tile_width tile_height c =
     (if tile_width < 0 \<or> tile_height < 0 then Inl ValueError
      else Inr (asarray (nat tile_height) (nat tile_width)
                 (draw_text pil font tile_width tile_height c)))"

text \<open>A comprehension or \<^verbatim>\<open>map\<close> whose body may raise stops at the first exception.\<close>

fun map_e :: "('a \<Rightarrow> error + 'b) \<Rightarrow> 'a list \<Rightarrow> error + 'b list" where
  "map_e f [] = Inr []"
| "map_e f (x # xs) =
     (case f x of
        Inl e \<Rightarrow> Inl e
      | Inr y \<Rightarrow> (case map_e f xs of Inl e \<Rightarrow> Inl e | Inr ys \<Rightarrow> Inr (y # ys)))"

section \<open>Geometry\<close>

text \<open>The variables that the sizing branches of \<^verbatim>\<open>main\<close> leave behind.\<close>

record resolved =
  res_font_size :: int
  res_tile_width :: int
  res_tile_height :: int
  res_h_padding :: int
  res_v_padding :: int
  res_frame :: "u8 ndarray"

text \<open>
  The parser declares no \<^verbatim>\<open>absolute_tile_width\<close> and no \<^verbatim>\<open>absolute_tile_height\<close>, so
  reading either attribute of the namespace raises \<^verbatim>\<open>AttributeError\<close>.
\<close>

definition args_absolute_tile_width :: "'f args \<Rightarrow> error + bool" where
  "args_absolute_tile_width args = Inl (AttributeError ''absolute_tile_width'')"

definition args_absolute_tile_height :: "'f args \<Rightarrow> error + bool" where
  "args_absolute_tile_height args = Inl (AttributeError ''absolute_tile_height'')"

text \<open>The branch \<^verbatim>\<open>if args.use_tile_dimensions:\<close>. A conditional expression reads its condition first.\<close>

definition tile_dimension_mode ::
  "'f float_ops \<Rightarrow> 'f args \<Rightarrow> int \<Rightarrow> int \<Rightarrow> u8 ndarray \<Rightarrow> error + resolved" where
  "tile_dimension_mode fl args w h frame =
     (let font_size = (case args_font_size args of None \<Rightarrow> DEFAULT_FONT_SIZE | Some s \<Rightarrow> s) in
      case args_absolute_tile_width args of Inl e \<Rightarrow> Inl e | Inr absolute_w \<Rightarrow>
      case (if absolute_w then Inr (args_tile_width args)
            else fl_mul_int fl (args_tile_width args) font_size) of Inl e \<Rightarrow> Inl e | Inr width_spec \<Rightarrow>
      case fl_ceil fl width_spec of Inl e \<Rightarrow> Inl e | Inr tile_width \<Rightarrow>
      case args_absolute_tile_height args of Inl e \<Rightarrow> Inl e | Inr absolute_h \<Rightarrow>
      case (if absolute_h then Inr (args_tile_height args)
            else fl_mul_int fl (args_tile_height args) font_size) of Inl e \<Rightarrow> Inl e | Inr height_spec \<Rightarrow>
      case fl_ceil fl height_spec of Inl e \<Rightarrow> Inl e | Inr tile_height \<Rightarrow>
      case py_mod (- w) tile_width of Inl e \<Rightarrow> Inl e | Inr h_padding \<Rightarrow>
      case py_mod (- h) tile_height of Inl e \<Rightarrow> Inl e | Inr v_padding \<Rightarrow>
      case pad_with frame h_padding v_padding of Inl e \<Rightarrow> Inl e | Inr padded \<Rightarrow>
        Inr \<lparr>res_font_size = font_size, res_tile_width = tile_width, res_tile_height = tile_height,
             res_h_padding = h_padding, res_v_padding = v_padding, res_frame = padded\<rparr>)"

text \<open>The \<^verbatim>\<open>else\<close> branch: tile counts.\<close>

definition resolve_v_tile_count :: "'f float_ops \<Rightarrow> 'f args \<Rightarrow> int \<Rightarrow> int \<Rightarrow> error + int" where
  "resolve_v_tile_count fl args w h =
     (case args_v_tile_count args of
        Some v \<Rightarrow> Inr v
      | None \<Rightarrow> fl_round_aspect fl (args_h_tile_count args) h w
                  (args_tile_width args) (args_tile_height args))"

definition resolve_font_size :: "'f float_ops \<Rightarrow> 'f args \<Rightarrow> int \<Rightarrow> int \<Rightarrow> error + int" where
  "resolve_font_size fl args tile_width tile_height =
     (case args_font_size args of
        Some s \<Rightarrow> Inr s
      | None \<Rightarrow> fl_floor_min fl tile_width tile_height (args_tile_width args) (args_tile_height args))"

definition tile_count_mode ::
  "'f float_ops \<Rightarrow> 'f args \<Rightarrow> int \<Rightarrow> int \<Rightarrow> u8 ndarray \<Rightarrow> error + resolved" where
  "tile_count_mode fl args w h frame =
     (let h_tile_count = args_h_tile_count args in
      case resolve_v_tile_count fl args w h of Inl e \<Rightarrow> Inl e | Inr v_tile_count \<Rightarrow>
      case py_divmod (- w) h_tile_count of Inl e \<Rightarrow> Inl e | Inr (tile_width_neg, h_pad) \<Rightarrow>
      case py_divmod (- h) v_tile_count of Inl e \<Rightarrow> Inl e | Inr (tile_height_neg, v_pad) \<Rightarrow>
      let tile_width = - tile_width_neg;
          tile_height = - tile_height_neg in
      case resolve_font_size fl args tile_width tile_height of Inl e \<Rightarrow> Inl e | Inr font_size \<Rightarrow>
      case pad_with frame h_pad v_pad of Inl e \<Rightarrow> Inl e | Inr padded \<Rightarrow>
        Inr \<lparr>res_font_size = font_size, res_tile_width = tile_width, res_tile_height = tile_height,
             res_h_padding = h_pad, res_v_padding = v_pad, res_frame = padded\<rparr>)"

text \<open>Lines 112 to 157 of \<^verbatim>\<open>main\<close>: open the image, then resolve the sizes and pad the frame.\<close>

definition resolve :: "'f float_ops \<Rightarrow> 'f args \<Rightarrow> 'f image \<Rightarrow> error + resolved" where
  "resolve fl args img =
     (let w = fst (img_size img);
          h = snd (img_size img);
          frame = asarray h w (luminance img (args_contrast args))
      in if args_use_tile_dimensions args
         then tile_dimension_mode fl args (int w) (int h) frame
         else tile_count_mode fl args (int w) (int h) frame)"

text \<open>
  The resolved geometry: font size, tile size, padding amounts, the shape of the padded
  frame, and the tile counts that \<^verbatim>\<open>to_tiles\<close> derives from them.
\<close>

definition geometry :: "resolved \<Rightarrow> int \<times> int \<times> int \<times> int \<times> int \<times> nat \<times> nat" where
  "geometry r = (res_font_size r, res_tile_width r, res_tile_height r,
                 res_h_padding r, res_v_padding r, nrows (res_frame r), ncols (res_frame r))"

section \<open>The program\<close>

text \<open>
  The output loop prints one line per row of tiles. The result of a run is the list of lines
  printed, and either the exception that ended the run or the return code.
\<close>

fun print_rows ::
  "(u8 list list \<Rightarrow> error + char) \<Rightarrow> u8 list list list list \<Rightarrow> string list
     \<Rightarrow> string list \<times> (error + int)" where
  "print_rows f [] out = (out, Inr 0)"
| "print_rows f (row # rows) out =
     (case map_e f row of
        Inl e \<Rightarrow> (out, Inl e)
      | Inr line \<Rightarrow> print_rows f rows (out @ [line]))"

definition main ::
  "'f float_ops \<Rightarrow> 'font pil \<Rightarrow> 'f args \<Rightarrow> 'f image \<Rightarrow> string list \<times> (error + int)" where
  "main fl pil args img =
     (case resolve fl args img of Inl e \<Rightarrow> ([], Inl e) | Inr r \<Rightarrow>
      let font_size = res_font_size r;
          tile_width = res_tile_width r;
          tile_height = res_tile_height r;
          frame = res_frame r in
      case truetype pil (args_font args) font_size of Inl e \<Rightarrow> ([], Inl e) | Inr font \<Rightarrow>
      let char_set = args_char_set args in
      case map_e (to_char_glyph pil font tile_width tile_height) char_set of
        Inl e \<Rightarrow> ([], Inl e)
      | Inr glyphs \<Rightarrow>
      let char_glyphs = int16_table (map tolist glyphs) in
      case to_tiles frame tile_width tile_height of Inl e \<Rightarrow> ([], Inl e) | Inr tiles \<Rightarrow>
        print_rows (closest_char char_set char_glyphs) (tile_rows tiles) [])"

section \<open>Reference notions of the specification\<close>

text \<open>
  The distance of the specification: the sum of the absolute pixel-wise differences over the
  flattened matrices, as a mathematical integer.
\<close>

definition l1_distance :: "i16 list list \<Rightarrow> u8 list list \<Rightarrow> int" where
  "l1_distance g t = sum_list (map2 (\<lambda>x y. \<bar>sint x - uint y\<bar>) (concat g) (concat t))"

text \<open>A matrix of \<open>th\<close> rows of \<open>tw\<close> entries.\<close>

definition has_shape :: "nat \<Rightarrow> nat \<Rightarrow> 'a list list \<Rightarrow> bool" where
  "has_shape th tw t = (length t = th \<and> list_all (\<lambda>r. length r = tw) t)"

text \<open>The block of \<open>h\<close> rows and \<open>w\<close> columns of a grid whose top-left corner is at row \<open>y0\<close>, column \<open>x0\<close>.\<close>

definition sub_block :: "'a ndarray \<Rightarrow> nat \<Rightarrow> nat \<Rightarrow> nat \<Rightarrow> nat \<Rightarrow> 'a list list" where
  "sub_block a y0 x0 h w = map (\<lambda>y. map (\<lambda>x. item a y x) [x0..<x0 + w]) [y0..<y0 + h]"


section \<open>Example inputs\<close>

text \<open>
  Concrete collaborators on which the model is run in the examples below: the
  floating-point expressions evaluated exactly over the rationals (\<^verbatim>\<open>round\<close> rounds a half
  to the even neighbour), the namespace of a command line
  \<^verbatim>\<open>main.py -x n [-y v] [-s size] -C chars\<close> with every other option at its default, an
  image of one luminance, and a font that paints every tile white except for a space.
\<close>

definition py_round :: "rat \<Rightarrow> int" where
  "py_round q =
     (let f = \<lfloor>q\<rfloor>; d = q - of_int f in
      if d < 1 / 2 then f else if 1 / 2 < d then f + 1 else if even f then f else f + 1)"

definition exact_floats :: "rat float_ops" where
  "exact_floats =
     \<lparr>fl_round_aspect = (\<lambda>n h w a b.
         if w = 0 \<or> b = 0 then Inl ZeroDivisionError
         else Inr (py_round (of_int (n * h) / of_int w * a / b))),
      fl_floor_min = (\<lambda>tw th a b.
         if a = 0 \<or> b = 0 then Inl ZeroDivisionError
         else Inr \<lfloor>min (of_int tw / a) (of_int th / b)\<rfloor>),
      fl_mul_int = (\<lambda>a k. Inr (a * of_int k)),
      fl_ceil = (\<lambda>a. Inr \<lceil>a\<rceil>)\<rparr>"

definition count_args :: "int \<Rightarrow> int option \<Rightarrow> int option \<Rightarrow> string \<Rightarrow> rat args" where
  "count_args n v s chars =
     \<lparr>args_use_tile_dimensions = False, args_contrast = 1, args_char_set = chars,
      args_font = ''Courier'', args_font_size = s, args_h_tile_count = n,
      args_v_tile_count = v, args_tile_width = 6 / 10, args_tile_height = 15 / 10\<rparr>"

definition gray_image :: "nat \<Rightarrow> nat \<Rightarrow> u8 \<Rightarrow> rat image" where
  "gray_image w h p = \<lparr>img_size = (w, h), luminance = (\<lambda>c y x. p)\<rparr>"

definition block_font :: "unit pil" where
  "block_font =
     \<lparr>truetype = (\<lambda>name size. if 0 < size then Inr () else Inl ValueError),
      draw_text = (\<lambda>font tile_width tile_height c y x. if c = CHR '' '' then 0 else 255)\<rparr>"

section \<open>The matcher computes the L1 distance\<close>

text \<open>
  Glyph samples and tile samples are \<^verbatim>\<open>uint8\<close>, so the 16-bit difference and its absolute
  value never wrap, and the 64-bit sum of fewer than \<open>2 ^ 55\<close> such values does not wrap either.
\<close>

lemma uint8_bound: "uint (t::u8) < 256"
  using uint_bounded [of t] by simp

lemma stb15_small: "- 256 < k \<Longrightarrow> k < 256 \<Longrightarrow> signed_take_bit 15 k = (k::int)"
  by (rule signed_take_bit_int_eq_self) simp_all

lemma sint_ucast8: "sint (ucast (t::u8) :: i16) = uint t"
proof -
  have "uint (ucast t :: i16) = uint t"
    by (simp add: uint_up_ucast is_up)
  moreover have "signed_take_bit 15 (uint t) = uint t"
    using uint8_bound [of t] uint_ge_0 [of t] by (intro stb15_small) linarith+
  ultimately show ?thesis
    by (simp add: sint_uint)
qed

lemma sint_diff8: "sint (ucast (g::u8) - ucast (t::u8) :: i16) = uint g - uint t"
proof -
  have "signed_take_bit 15 (uint g - uint t) = uint g - uint t"
    using uint8_bound [of g] uint8_bound [of t] uint_ge_0 [of g] uint_ge_0 [of t]
    by (intro stb15_small) linarith+
  then show ?thesis
    by (simp add: sint_word_diff sint_ucast8)
qed

lemma sint_absdiff: "sint (absdiff (ucast (g::u8)) t) = \<bar>uint g - uint t\<bar>"
proof (cases "uint g < uint t")
  case True
  have "- (ucast g - ucast t :: i16) = ucast t - ucast g"
    by simp
  with True show ?thesis
    by (simp add: absdiff_def np_abs16_def word_sless_alt sint_diff8)
next
  case False
  then show ?thesis
    by (simp add: absdiff_def np_abs16_def word_sless_alt sint_diff8)
qed

lemma absdiff_range: "0 \<le> sint (absdiff (ucast (g::u8)) t) \<and> sint (absdiff (ucast (g::u8)) t) \<le> 255"
  using uint8_bound [of g] uint8_bound [of t] uint_ge_0 [of g] uint_ge_0 [of t]
  unfolding sint_absdiff by linarith

lemma sint_scast64: "sint (scast (x::i16) :: i64) = sint x"
  by (simp add: sint_up_scast is_up)

lemma sint_sum64:
  "list_all (\<lambda>x. 0 \<le> sint x \<and> sint x \<le> 255) xs \<Longrightarrow> length xs < 2 ^ 55 \<Longrightarrow>
   sint (sum_list (map scast (xs :: i16 list)) :: i64) = sum_list (map sint xs)
   \<and> 0 \<le> sum_list (map sint xs) \<and> sum_list (map sint xs) \<le> 255 * int (length xs)"
proof (induction xs)
  case Nil
  show ?case by simp
next
  case (Cons x xs)
  then have ih: "sint (sum_list (map scast xs) :: i64) = sum_list (map sint xs)"
    "0 \<le> sum_list (map sint xs)" "sum_list (map sint xs) \<le> 255 * int (length xs)"
    by simp_all
  from Cons.prems have x: "0 \<le> sint x" "sint x \<le> 255" and len: "int (length xs) + 1 < 2 ^ 55"
    by simp_all
  have "sint x + sum_list (map sint xs) < 2 ^ 63"
    using x ih len by simp
  moreover have "- (2 ^ 63) \<le> sint x + sum_list (map sint xs)"
    using x ih by simp
  ultimately have "signed_take_bit 63 (sint x + sum_list (map sint xs)) = sint x + sum_list (map sint xs)"
    by (intro signed_take_bit_int_eq_self) simp_all
  then have "sint (scast x + sum_list (map scast xs) :: i64) = sint x + sum_list (map sint xs)"
    by (simp add: sint_word_add sint_scast64 ih)
  with x ih show ?case by simp
qed

lemma concat_map2_rows:
  "list_all2 (\<lambda>r s. length r = length s) g t \<Longrightarrow>
   concat (map2 (map2 f) g t) = map2 f (concat g) (concat t)"
  by (induction g t rule: list_all2_induct) (simp_all add: zip_append)


lemma has_shape_rows: "has_shape th tw g \<Longrightarrow> has_shape th tw t \<Longrightarrow> list_all2 (\<lambda>r s. length r = length s) g t"
  by (auto simp: has_shape_def list_all2_conv_all_nth list_all_length)

lemma length_concat_shape: "has_shape th tw t \<Longrightarrow> length (concat t) = th * tw"
proof -
  assume "has_shape th tw t"
  then have "map length t = replicate th tw"
    by (auto simp: has_shape_def list_all_length intro: nth_equalityI)
  then show ?thesis
    by (simp add: length_concat sum_list_replicate)
qed

lemma has_shape_ucast: "has_shape th tw g \<Longrightarrow> has_shape th tw (map (map ucast) g)"
  by (simp add: has_shape_def list_all_length)

lemma glyph_distance_l1:
  fixes g :: "u8 list list" and t :: "u8 list list"
  assumes g: "has_shape th tw g" and t: "has_shape th tw t" and small: "th * tw < 2 ^ 55"
  shows "sint (glyph_distance (map (map ucast) g) t) = l1_distance (map (map ucast) g) t"
proof -
  let ?g = "map (map ucast) g :: i16 list list"
  let ?ds = "map2 absdiff (concat ?g) (concat t)"
  have rows: "list_all2 (\<lambda>r s. length r = length s) ?g t"
    using has_shape_rows [OF has_shape_ucast [OF g] t] .
  have flat: "concat (map2 (map2 absdiff) ?g t) = ?ds"
    using rows by (rule concat_map2_rows)
  have cg: "concat ?g = map ucast (concat g)"
    by (simp add: map_concat)
  have len: "length ?ds < 2 ^ 55"
    using small length_concat_shape [OF g] length_concat_shape [OF t] by (simp add: cg)
  have rng: "list_all (\<lambda>x. 0 \<le> sint x \<and> sint x \<le> 255) ?ds"
    unfolding cg list_all_length using absdiff_range by (simp add: )
  have "sint (glyph_distance ?g t) = sum_list (map sint ?ds)"
    unfolding glyph_distance_def flat using sint_sum64 [OF rng len] by simp
  also have "map sint ?ds = map2 (\<lambda>x y. \<bar>sint x - uint y\<bar>) (concat ?g) (concat t)"
    unfolding cg by (simp add: zip_map1 sint_absdiff sint_ucast8 split_def)
  finally show ?thesis
    by (simp add: l1_distance_def)
qed

lemma argmin_loop_spec:
  "argmin_loop xs i mp mi = k \<Longrightarrow>
     (k = mi \<and> (\<forall>j<length xs. sint mp \<le> sint (xs ! j)))
   \<or> (i \<le> k \<and> k < i + length xs \<and> sint (xs ! (k - i)) < sint mp
        \<and> (\<forall>j<length xs. sint (xs ! (k - i)) \<le> sint (xs ! j))
        \<and> (\<forall>j<k - i. sint (xs ! (k - i)) < sint (xs ! j)))"
proof (induction xs arbitrary: i mp mi)
  case Nil
  then show ?case by simp
next
  case (Cons x xs)
  show ?case
  proof (cases "x <s mp")
    case True
    with Cons.prems have "argmin_loop xs (Suc i) x i = k" by simp
    from Cons.IH [OF this] show ?thesis
    proof
      assume a: "k = i \<and> (\<forall>j<length xs. sint x \<le> sint (xs ! j))"
      have "\<forall>j<length (x # xs). sint x \<le> sint ((x # xs) ! j)"
        using a by (auto simp: nth_Cons split: nat.splits)
      with a True show ?thesis
        by (simp add: word_sless_alt)
    next
      assume a: "Suc i \<le> k \<and> k < Suc i + length xs \<and> sint (xs ! (k - Suc i)) < sint x
        \<and> (\<forall>j<length xs. sint (xs ! (k - Suc i)) \<le> sint (xs ! j))
        \<and> (\<forall>j<k - Suc i. sint (xs ! (k - Suc i)) < sint (xs ! j))"
      then obtain d where d: "k - i = Suc d" "k - Suc i = d"
        by (cases "k - i") auto
      have "\<forall>j<length (x # xs). sint (xs ! d) \<le> sint ((x # xs) ! j)"
        using a d by (auto simp: nth_Cons split: nat.splits)
      moreover have "\<forall>j<Suc d. sint (xs ! d) < sint ((x # xs) ! j)"
        using a d by (auto simp: nth_Cons split: nat.splits)
      ultimately show ?thesis
        using a d True by (simp add: word_sless_alt)
    qed
  next
    case False
    with Cons.prems have "argmin_loop xs (Suc i) mp mi = k" by simp
    from Cons.IH [OF this] show ?thesis
    proof
      assume a: "k = mi \<and> (\<forall>j<length xs. sint mp \<le> sint (xs ! j))"
      have "\<forall>j<length (x # xs). sint mp \<le> sint ((x # xs) ! j)"
        using a False by (auto simp: nth_Cons word_sless_alt split: nat.splits)
      with a show ?thesis by simp
    next
      assume a: "Suc i \<le> k \<and> k < Suc i + length xs \<and> sint (xs ! (k - Suc i)) < sint mp
        \<and> (\<forall>j<length xs. sint (xs ! (k - Suc i)) \<le> sint (xs ! j))
        \<and> (\<forall>j<k - Suc i. sint (xs ! (k - Suc i)) < sint (xs ! j))"
      then obtain d where d: "k - i = Suc d" "k - Suc i = d"
        by (cases "k - i") auto
      have "\<forall>j<length (x # xs). sint (xs ! d) \<le> sint ((x # xs) ! j)"
        using a d False by (auto simp: nth_Cons word_sless_alt split: nat.splits)
      moreover have "\<forall>j<Suc d. sint (xs ! d) < sint ((x # xs) ! j)"
        using a d False by (auto simp: nth_Cons word_sless_alt split: nat.splits)
      ultimately show ?thesis
        using a d by simp
    qed
  qed
qed

lemma argmin_first_min:
  assumes "xs \<noteq> []"
  shows "\<exists>k<length xs. argmin xs = Inr k
           \<and> (\<forall>j<length xs. sint (xs ! k) \<le> sint (xs ! j))
           \<and> (\<forall>j<k. sint (xs ! k) < sint (xs ! j))"
proof -
  from assms obtain x r where xs: "xs = x # r" by (cases xs) auto
  define k where "k = argmin_loop r 1 x 0"
  have am: "argmin xs = Inr k" by (simp add: argmin_def xs k_def)
  from argmin_loop_spec [of r 1 x 0 k] k_def
  consider (a) "k = 0" "\<forall>j<length r. sint x \<le> sint (r ! j)"
    | (b) "1 \<le> k" "k < 1 + length r" "sint (r ! (k - 1)) < sint x"
          "\<forall>j<length r. sint (r ! (k - 1)) \<le> sint (r ! j)"
          "\<forall>j<k - 1. sint (r ! (k - 1)) < sint (r ! j)"
    by auto
  then show ?thesis
  proof cases
    case a
    then have "\<forall>j<length xs. sint (xs ! k) \<le> sint (xs ! j)"
      by (auto simp: xs nth_Cons split: nat.splits)
    with a am show ?thesis by (simp add: xs)
  next
    case b
    then obtain d where d: "k = Suc d" by (cases k) auto
    have "\<forall>j<length xs. sint (xs ! k) \<le> sint (xs ! j)"
      using b d by (auto simp: xs nth_Cons split: nat.splits)
    moreover have "\<forall>j<k. sint (xs ! k) < sint (xs ! j)"
      using b d by (auto simp: xs nth_Cons split: nat.splits)
    ultimately show ?thesis
      using b am by (auto simp: xs)
  qed
qed


lemma has_shape_shape2:
  "has_shape th tw g \<Longrightarrow> has_shape th tw t \<Longrightarrow>
   shape2 g = shape2 t \<and> list_all (\<lambda>r. length r = snd (shape2 t)) g"
  by (cases g; cases t) (auto simp: has_shape_def shape2_def list_all_iff)

lemma l1_distance_nonneg: "0 \<le> l1_distance g t"
  unfolding l1_distance_def by (rule sum_list_nonneg) auto

lemma sum_list_abs_zero_iff:
  "length xs = length ys \<Longrightarrow>
   (sum_list (map2 (\<lambda>x y. \<bar>uint (x::u8) - uint (y::u8)\<bar>) xs ys) = 0) = (xs = ys)"
proof (induction xs ys rule: list_induct2)
  case Nil
  show ?case by simp
next
  case (Cons x xs y ys)
  have "0 \<le> sum_list (map2 (\<lambda>x y. \<bar>uint (x::u8) - uint (y::u8)\<bar>) xs ys)"
    by (rule sum_list_nonneg) auto
  with Cons.IH show ?case
    by (auto simp: add_nonneg_eq_0_iff word_uint_eq_iff)
qed

lemma l1_distance_zero_iff:
  fixes g t :: "u8 list list"
  assumes g: "has_shape th tw g" and t: "has_shape th tw t"
  shows "(l1_distance (map (map ucast) g) t = 0) = (g = t)"
proof -
  have len: "length (concat g) = length (concat t)"
    using length_concat_shape [OF g] length_concat_shape [OF t] by simp
  have cg: "concat (map (map ucast) g) = map (ucast :: u8 \<Rightarrow> i16) (concat g)"
    by (simp add: map_concat)
  have "l1_distance (map (map ucast) g) t
        = sum_list (map2 (\<lambda>x y. \<bar>uint x - uint y\<bar>) (concat g) (concat t))"
    unfolding l1_distance_def cg by (simp add: zip_map1 sint_ucast8 split_def comp_def)
  then have "(l1_distance (map (map ucast) g) t = 0) = (concat g = concat t)"
    using sum_list_abs_zero_iff [OF len] by simp
  also have "\<dots> = (g = t)"
    using g t by (intro concat_eq_concat_iff) (auto simp: has_shape_def list_all_length in_set_zip)
  finally show ?thesis .
qed


lemma closest_char_first_min:
  assumes cs: "char_set \<noteq> []" and len: "length glyphs = length char_set"
    and gs: "list_all (has_shape th tw) glyphs" and t: "has_shape th tw tile"
    and small: "th * tw < 2 ^ 55"
  shows "\<exists>k<length char_set.
           closest_char char_set (int16_table glyphs) tile = Inr (char_set ! k)
         \<and> (\<forall>j<length char_set.
               l1_distance (int16_table glyphs ! k) tile \<le> l1_distance (int16_table glyphs ! j) tile)
         \<and> (\<forall>j<k. l1_distance (int16_table glyphs ! k) tile < l1_distance (int16_table glyphs ! j) tile)"
proof -
  let ?tab = "int16_table glyphs"
  let ?ds = "map (\<lambda>g. glyph_distance g tile) ?tab"
  have n: "length ?tab = length char_set" "length ?ds = length char_set"
    by (simp_all add: int16_table_def len)
  have ne: "?tab \<noteq> []" "?ds \<noteq> []"
    using cs len by (auto simp: int16_table_def)
  have g_at: "has_shape th tw (glyphs ! j)" if "j < length char_set" for j
    using gs that len by (simp add: list_all_length)
  have tab_at: "?tab ! j = map (map ucast) (glyphs ! j)" if "j < length char_set" for j
    using that len by (simp add: int16_table_def)
  have dist: "sint (?ds ! j) = l1_distance (?tab ! j) tile" if "j < length char_set" for j
    using that glyph_distance_l1 [OF g_at [OF that] t small] n by (simp add: tab_at)
  have "\<forall>j<length ?tab. shape2 (?tab ! j) = shape2 tile
          \<and> list_all (\<lambda>r. length r = snd (shape2 tile)) (?tab ! j)"
  proof (intro allI impI)
    fix j assume "j < length ?tab"
    then have j: "j < length char_set" using n by simp
    show "shape2 (?tab ! j) = shape2 tile \<and> list_all (\<lambda>r. length r = snd (shape2 tile)) (?tab ! j)"
      using has_shape_shape2 [OF has_shape_ucast [OF g_at [OF j]] t] by (simp add: tab_at [OF j])
  qed
  then have shapes: "list_all (\<lambda>g. shape2 g = shape2 tile
      \<and> list_all (\<lambda>r. length r = snd (shape2 tile)) g) ?tab"
    by (rule list_all_length [THEN iffD2])
  from argmin_first_min [OF ne(2)] obtain k where k: "k < length char_set" "argmin ?ds = Inr k"
    and kmin: "\<forall>j<length ?ds. sint (?ds ! k) \<le> sint (?ds ! j)"
    and kfirst: "\<forall>j<k. sint (?ds ! k) < sint (?ds ! j)"
    using n by auto
  have res: "closest_char char_set ?tab tile = Inr (char_set ! k)"
    using ne shapes k by (simp add: closest_char_def)
  have m1: "\<forall>j<length char_set. l1_distance (?tab ! k) tile \<le> l1_distance (?tab ! j) tile"
    using kmin k n dist by (metis (no_types, lifting))
  have m2: "\<forall>j<k. l1_distance (?tab ! k) tile < l1_distance (?tab ! j) tile"
  proof (intro allI impI)
    fix j assume jk: "j < k"
    then have "j < length char_set" using k by simp
    from dist [OF this] dist [OF k(1)] kfirst [rule_format, OF jk]
    show "l1_distance (?tab ! k) tile < l1_distance (?tab ! j) tile" by simp
  qed
  from k res m1 m2 show ?thesis by blast
qed

text \<open>
  Claim C1. For every tile and every non-empty character set, \<^verbatim>\<open>closest_char\<close> returns the
  character at the least index whose glyph buffer minimises the sum of absolute pixel-wise
  differences against the tile: it returns \<open>char_set ! k\<close> where the distance of glyph \<open>k\<close> is
  at most that of every glyph and strictly below that of every earlier glyph. In particular,
  of two characters with pixel-identical glyph buffers the later one is never returned.
  The glyph table is the one \<^verbatim>\<open>main\<close> builds (one \<^verbatim>\<open>uint8\<close> glyph of the tile's shape per
  character, converted to \<^verbatim>\<open>int16\<close>), and the tile has fewer than \<open>2 ^ 55\<close> pixels, which
  every array that fits in memory has.
\<close>

theorem closest_char_least_index_minimum:
  assumes cs: "char_set \<noteq> []" and len: "length glyphs = length char_set"
    and gs: "list_all (has_shape th tw) glyphs" and t: "has_shape th tw tile"
    and small: "th * tw < 2 ^ 55"
  shows "\<exists>k<length char_set.
           closest_char char_set (int16_table glyphs) tile = Inr (char_set ! k)
         \<and> (\<forall>j<length char_set.
               l1_distance (int16_table glyphs ! k) tile \<le> l1_distance (int16_table glyphs ! j) tile)
         \<and> (\<forall>j<k. l1_distance (int16_table glyphs ! k) tile < l1_distance (int16_table glyphs ! j) tile)
         \<and> (\<forall>i j. i < j \<and> j < length char_set \<and> glyphs ! i = glyphs ! j \<longrightarrow> k \<noteq> j)"
proof -
  let ?tab = "int16_table glyphs"
  from closest_char_first_min [OF cs len gs t small]
  obtain k where k: "k < length char_set"
    and res: "closest_char char_set ?tab tile = Inr (char_set ! k)"
    and m1: "\<forall>j<length char_set. l1_distance (?tab ! k) tile \<le> l1_distance (?tab ! j) tile"
    and m2: "\<forall>j<k. l1_distance (?tab ! k) tile < l1_distance (?tab ! j) tile"
    by blast
  have m3: "\<forall>i j. i < j \<and> j < length char_set \<and> glyphs ! i = glyphs ! j \<longrightarrow> k \<noteq> j"
  proof (intro allI impI notI)
    fix i j assume a: "i < j \<and> j < length char_set \<and> glyphs ! i = glyphs ! j" and "k = j"
    then have "i < k" "?tab ! i = ?tab ! k"
      using len by (simp_all add: int16_table_def)
    with m2 show False by auto
  qed
  from k res m1 m2 m3 show ?thesis by blast
qed

theorem closest_char_least_index_minimum_witness:
  "closest_char ''ab'' (int16_table [[[7, 200]], [[7, 200]]]) [[1, 255]] = Inr (CHR ''a'')"
proof -
  have h1: "''ab'' \<noteq> []"
    by simp
  have h2: "length [[[7, 200]], [[7, 200 :: u8]]] = length ''ab''"
    by simp
  have h3: "list_all (has_shape 1 2) [[[7, 200]], [[7, 200 :: u8]]]"
    by (simp add: has_shape_def)
  have h4: "has_shape 1 2 [[1, 255 :: u8]]"
    by (simp add: has_shape_def)
  have h5: "(1::nat) * 2 < 2 ^ 55"
    by simp
  from closest_char_least_index_minimum [OF h1 h2 h3 h4 h5]
  obtain k where k: "k < length ''ab''"
    "closest_char ''ab'' (int16_table [[[7, 200]], [[7, 200]]]) [[1, 255]] = Inr (''ab'' ! k)"
    "\<forall>i j. i < j \<and> j < length ''ab'' \<and> [[[7, 200]], [[7, 200 :: u8]]] ! i = [[[7, 200]], [[7, 200]]] ! j
       \<longrightarrow> k \<noteq> j"
    by blast
  from k(3) [rule_format, of 0 1] have "k \<noteq> 1"
    by simp
  with k(1) have "k = 0"
    by simp
  with k(2) show ?thesis
    by simp
qed

lemma absdiff_self: "absdiff (ucast x) x = 0"
  by (simp add: absdiff_def np_abs16_def)

lemma glyph_distance_self:
  "glyph_distance (map (map ucast) t) t = 0"
proof -
  have "concat (map2 (map2 absdiff) (map (map ucast) t) t) = replicate (length (concat t)) 0"
  proof (induction t)
    case Nil
    show ?case by simp
  next
    case (Cons r t)
    have "map2 absdiff (map ucast r) r = replicate (length r) 0"
      by (induction r) (simp_all add: absdiff_self)
    with Cons show ?case
      by (simp add: replicate_add)
  qed
  then show ?thesis
    by (simp add: glyph_distance_def sum_list_replicate)
qed

text \<open>
  Claim C8 says that a tile pixel-identical to the glyph buffer of a character \<open>c\<close> of the set
  gets distance 0 for \<open>c\<close> and that \<open>c\<close> is selected. The selection fails when an earlier
  character has the same glyph buffer: with the set \<open>ab\<close> and two identical glyphs, the tile
  equal to the glyph of \<open>b\<close> is matched to \<open>a\<close>.
\<close>

theorem closest_char_identical_glyph_counterexample:
  "''ab'' ! 1 = CHR ''b'' \<and> [[[7]], [[7 :: u8]]] ! 1 = [[7]]
   \<and> closest_char ''ab'' (int16_table [[[7]], [[7]]]) [[7]] = Inr (CHR ''a'')"
  by (simp add: closest_char_def int16_table_def shape2_def argmin_def glyph_distance_def
      absdiff_def np_abs16_def word_sless_alt)

text \<open>
  Claim C8, amended. For every character position \<open>c\<close> of the set and the tile pixel-identical
  to its glyph buffer, the matcher computes distance 0 for \<open>c\<close> and selects the first
  character of the set whose glyph buffer is pixel-identical to the tile; this is the
  character at \<open>c\<close> whenever no earlier character has the same glyph buffer.
\<close>

theorem closest_char_identical_glyph:
  assumes len: "length glyphs = length char_set"
    and gs: "list_all (has_shape th tw) glyphs"
    and small: "th * tw < 2 ^ 55"
    and c: "c < length char_set"
  shows "glyph_distance (int16_table glyphs ! c) (glyphs ! c) = 0
       \<and> (\<exists>k\<le>c. closest_char char_set (int16_table glyphs) (glyphs ! c) = Inr (char_set ! k)
              \<and> glyphs ! k = glyphs ! c
              \<and> (\<forall>j<k. glyphs ! j \<noteq> glyphs ! c))
       \<and> ((\<forall>j<c. glyphs ! j \<noteq> glyphs ! c)
            \<longrightarrow> closest_char char_set (int16_table glyphs) (glyphs ! c) = Inr (char_set ! c))"
proof -
  let ?tile = "glyphs ! c"
  let ?tab = "int16_table glyphs"
  have cs: "char_set \<noteq> []" using c by auto
  have g_at: "has_shape th tw (glyphs ! j)" if "j < length char_set" for j
    using gs that len by (simp add: list_all_length)
  have t: "has_shape th tw ?tile" using g_at [OF c] .
  have tab_at: "?tab ! j = map (map ucast) (glyphs ! j)" if "j < length char_set" for j
    using that len by (simp add: int16_table_def)
  have zero_iff: "(l1_distance (?tab ! j) ?tile = 0) = (glyphs ! j = ?tile)" if "j < length char_set" for j
    using l1_distance_zero_iff [OF g_at [OF that] t] by (simp add: tab_at [OF that])
  have d0: "glyph_distance (?tab ! c) ?tile = 0"
    by (simp add: tab_at [OF c] glyph_distance_self)
  from closest_char_first_min [OF cs len gs t small]
  obtain k where k: "k < length char_set"
    and res: "closest_char char_set ?tab ?tile = Inr (char_set ! k)"
    and kmin: "\<forall>j<length char_set. l1_distance (?tab ! k) ?tile \<le> l1_distance (?tab ! j) ?tile"
    and kfirst: "\<forall>j<k. l1_distance (?tab ! k) ?tile < l1_distance (?tab ! j) ?tile"
    by blast
  have c0: "l1_distance (?tab ! c) ?tile = 0"
    using zero_iff [OF c] by simp
  have "l1_distance (?tab ! k) ?tile \<le> 0"
    using kmin [rule_format, OF c] c0 by simp
  then have k0: "l1_distance (?tab ! k) ?tile = 0"
    using l1_distance_nonneg [of "?tab ! k" ?tile] by simp
  then have same: "glyphs ! k = ?tile"
    using zero_iff [OF k] by simp
  have kc: "k \<le> c"
  proof (rule ccontr)
    assume "\<not> k \<le> c"
    then have "c < k" by simp
    from kfirst [rule_format, OF this] k0 c0 show False by simp
  qed
  have before: "\<forall>j<k. glyphs ! j \<noteq> ?tile"
  proof (intro allI impI)
    fix j assume jk: "j < k"
    then have j: "j < length char_set" using k by simp
    from kfirst [rule_format, OF jk] k0 have "l1_distance (?tab ! j) ?tile \<noteq> 0" by simp
    then show "glyphs ! j \<noteq> ?tile" using zero_iff [OF j] by simp
  qed
  have only: "closest_char char_set ?tab ?tile = Inr (char_set ! c)" if "\<forall>j<c. glyphs ! j \<noteq> ?tile"
  proof -
    have "\<not> k < c" using that same by auto
    with kc have "k = c" by simp
    with res show ?thesis by simp
  qed
  from d0 kc res same before only show ?thesis by blast
qed

theorem closest_char_identical_glyph_witness:
  "closest_char ''ab'' (int16_table [[[7]], [[9]]]) ([[[7]], [[9]]] ! 1) = Inr (CHR ''b'')"
proof -
  have h1: "length [[[7]], [[9 :: u8]]] = length ''ab''"
    by simp
  have h2: "list_all (has_shape 1 1) [[[7]], [[9 :: u8]]]"
    by (simp add: has_shape_def)
  have h3: "(1::nat) * 1 < 2 ^ 55"
    by simp
  have h4: "1 < length ''ab''"
    by simp
  from closest_char_identical_glyph [OF h1 h2 h3 h4]
  have "(\<forall>j<1. [[[7]], [[9 :: u8]]] ! j \<noteq> [[[7]], [[9]]] ! 1)
    \<longrightarrow> closest_char ''ab'' (int16_table [[[7]], [[9]]]) ([[[7]], [[9]]] ! 1) = Inr (''ab'' ! 1)"
    by blast
  then show ?thesis
    by simp
qed

section \<open>Arrays, padding and the tile-count branch\<close>

lemma nrows_asarray [simp]: "nrows (asarray h w px) = h"
  and ncols_asarray [simp]: "ncols (asarray h w px) = w"
  by (simp_all add: asarray_def)

lemma np_pad_edge_nonneg:
  assumes "0 \<le> t" "0 \<le> b" "0 \<le> l" "0 \<le> r" "0 < nrows a" "0 < ncols a"
  shows "np_pad_edge a (t, b) (l, r) =
     Inr (asarray (nat t + nrows a + nat b) (nat l + ncols a + nat r)
            (\<lambda>y x. item a (edge_index (nrows a) (nat t) y) (edge_index (ncols a) (nat l) x)))"
  using assms by (simp add: np_pad_edge_def Let_def)

lemma half_split: "0 \<le> (p::int) \<Longrightarrow> 0 \<le> p div 2 \<and> 0 \<le> p - p div 2 \<and> nat (p div 2) + nat (p - p div 2) = nat p"
  by linarith

lemma pad_with_nonneg:
  assumes hp: "0 \<le> hp" and vp: "0 \<le> vp" and ne: "0 < nrows a" "0 < ncols a"
  shows "pad_with a hp vp =
     Inr (asarray (nrows a + nat vp) (ncols a + nat hp)
            (\<lambda>y x. item a (edge_index (nrows a) (nat (vp div 2)) y)
                          (edge_index (ncols a) (nat (hp div 2)) x)))"
proof -
  from half_split [OF hp] have h: "0 \<le> hp div 2" "0 \<le> hp - hp div 2"
    "nat (hp div 2) + ncols a + nat (hp - hp div 2) = ncols a + nat hp"
    by linarith+
  from half_split [OF vp] have v: "0 \<le> vp div 2" "0 \<le> vp - vp div 2"
    "nat (vp div 2) + nrows a + nat (vp - vp div 2) = nrows a + nat vp"
    by linarith+
  have "pad_with a hp vp = np_pad_edge a (vp div 2, vp - vp div 2) (hp div 2, hp - hp div 2)"
    by (simp add: pad_with_def Let_def)
  also have "\<dots> = Inr (asarray (nat (vp div 2) + nrows a + nat (vp - vp div 2))
            (nat (hp div 2) + ncols a + nat (hp - hp div 2))
            (\<lambda>y x. item a (edge_index (nrows a) (nat (vp div 2)) y)
                          (edge_index (ncols a) (nat (hp div 2)) x)))"
    by (rule np_pad_edge_nonneg [OF v(1,2) h(1,2) ne])
  finally show ?thesis
    by (simp only: h(3) v(3))
qed


lemma neg_div_ceiling: "0 < n \<Longrightarrow> - ((- w) div n) = \<lceil>real_of_int w / real_of_int n\<rceil>"
  by (simp add: ceiling_divide_eq_div)

lemma neg_mod_excess: "(- w) mod n = (- ((- w) div n)) * n - (w::int)"
proof -
  have "(- w) div n * n + (- w) mod n = - w"
    by simp
  moreover have "(- ((- w) div n)) * n = - ((- w) div n * n)"
    by simp
  ultimately show ?thesis
    by linarith
qed


lemma tile_count_mode_positive:
  assumes n: "1 \<le> n" "args_h_tile_count args = n"
    and v: "resolve_v_tile_count fl args w h = Inr v" "1 \<le> v"
    and s: "resolve_font_size fl args (- ((- w) div n)) (- ((- h) div v)) = Inr s"
    and fr: "int (nrows frame) = h" "int (ncols frame) = w" "1 \<le> w" "1 \<le> h"
  shows "tile_count_mode fl args w h frame =
          Inr \<lparr>res_font_size = s,
               res_tile_width = - ((- w) div n),
               res_tile_height = - ((- h) div v),
               res_h_padding = (- w) mod n,
               res_v_padding = (- h) mod v,
               res_frame = asarray (nrows frame + nat ((- h) mod v)) (ncols frame + nat ((- w) mod n))
                   (\<lambda>y x. item frame (edge_index (nrows frame) (nat (((- h) mod v) div 2)) y)
                                 (edge_index (ncols frame) (nat (((- w) mod n) div 2)) x))\<rparr>"
proof -
  have hp: "0 \<le> (- w) mod n" and vp: "0 \<le> (- h) mod v"
    using n v by simp_all
  have ne: "0 < nrows frame" "0 < ncols frame"
    using fr by linarith+
  have nz: "n \<noteq> 0" "v \<noteq> 0"
    using n v by simp_all
  have d1: "py_divmod (- w) n = Inr ((- w) div n, (- w) mod n)"
    and d2: "py_divmod (- h) v = Inr ((- h) div v, (- h) mod v)"
    using nz by (simp_all add: py_divmod_def)
  show ?thesis
    by (simp only: tile_count_mode_def Let_def n(2) v(1) d1 d2 sum.case prod.case s
        pad_with_nonneg [OF hp vp ne])
qed


lemma length_concat_rows:
  "(\<And>i. i < n \<Longrightarrow> length (f i) = k) \<Longrightarrow> length (concat (map f [0..<n])) = n * k"
  by (induction n) simp_all

lemma concat_rows_nth:
  assumes "\<And>i. i < n \<Longrightarrow> length (f i) = k" and "i < n" and "j < k"
  shows "concat (map f [0..<n]) ! (i * k + j) = f i ! j"
  using assms
proof (induction n)
  case 0
  then show ?case by simp
next
  case (Suc n)
  have len: "length (concat (map f [0..<n])) = n * k"
    using Suc.prems(1) by (intro length_concat_rows) simp
  show ?case
  proof (cases "i < n")
    case True
    then have "Suc i * k \<le> n * k"
      by (intro mult_le_mono1) simp
    then have "i * k + j < n * k"
      using Suc.prems(3) by simp
    with True Suc show ?thesis
      by (simp add: nth_append len)
  next
    case False
    with Suc.prems(2) have "i = n" by simp
    then show ?thesis
      by (simp add: nth_append len)
  qed
qed

lemma item_asarray: "y < h \<Longrightarrow> x < w \<Longrightarrow> item (asarray h w px) y x = px y x"
  unfolding item_def asarray_def
  using concat_rows_nth [of h "\<lambda>y. map (px y) [0..<w]" w y x] by simp

lemma edge_index_less: "0 < n \<Longrightarrow> edge_index n before i < n"
  unfolding edge_index_def by (cases "i < before") (simp_all add: min_def, linarith)

lemma resolve_count_mode:
  "\<not> args_use_tile_dimensions args \<Longrightarrow> img_size img = (w, h) \<Longrightarrow>
   resolve fl args img =
     tile_count_mode fl args (int w) (int h) (asarray h w (luminance img (args_contrast args)))"
  by (simp add: resolve_def Let_def)

lemma resolve_positive:
  assumes mode: "\<not> args_use_tile_dimensions args" and size: "img_size img = (w, h)"
    and dims: "1 \<le> w" "1 \<le> h"
    and n: "args_h_tile_count args = n" "1 \<le> n"
    and v: "resolve_v_tile_count fl args (int w) (int h) = Inr v" "1 \<le> v"
    and s: "resolve_font_size fl args (- ((- int w) div n)) (- ((- int h) div v)) = Inr s"
  shows "resolve fl args img =
          Inr \<lparr>res_font_size = s,
               res_tile_width = - ((- int w) div n),
               res_tile_height = - ((- int h) div v),
               res_h_padding = (- int w) mod n,
               res_v_padding = (- int h) mod v,
               res_frame = asarray (h + nat ((- int h) mod v)) (w + nat ((- int w) mod n))
                   (\<lambda>y x. luminance img (args_contrast args)
                      (edge_index h (nat (((- int h) mod v) div 2)) y)
                      (edge_index w (nat (((- int w) mod n) div 2)) x))\<rparr>"
proof -
  let ?frame = "asarray h w (luminance img (args_contrast args))"
  have fr: "int (nrows ?frame) = int h" "int (ncols ?frame) = int w" "1 \<le> int w" "1 \<le> int h"
    using dims by simp_all
  have px: "item ?frame (edge_index h a y) (edge_index w b x)
      = luminance img (args_contrast args) (edge_index h a y) (edge_index w b x)" for a b y x
    using dims by (intro item_asarray edge_index_less) simp_all
  show ?thesis
    unfolding resolve_count_mode [OF mode size]
      tile_count_mode_positive [OF n(2,1) v s fr]
    by (simp add: px)
qed



lemma example_count_args [simp]:
  "\<not> args_use_tile_dimensions (count_args n v s chars)"
  "args_h_tile_count (count_args n v s chars) = n"
  "args_v_tile_count (count_args n v s chars) = v"
  "args_font_size (count_args n v s chars) = s"
  "args_char_set (count_args n v s chars) = chars"
  "args_font (count_args n v s chars) = ''Courier''"
  "args_contrast (count_args n v s chars) = 1"
  by (simp_all add: count_args_def)

lemma example_gray_image [simp]:
  "img_size (gray_image w h p) = (w, h)"
  "luminance (gray_image w h p) c y x = p"
  by (simp_all add: gray_image_def)

lemma resolve_supplied [simp]:
  "resolve_v_tile_count fl (count_args n (Some v) s chars) w h = Inr v"
  "resolve_font_size fl (count_args n v' (Some s') chars) tw th = Inr s'"
  by (simp_all add: resolve_v_tile_count_def resolve_font_size_def)





section \<open>What the sizing code checks\<close>

text \<open>
  Claim C6 says that a tile count or tile dimension \<open>\<le> 0\<close> makes geometry resolution fail
  with a dedicated error before any division. A 100 by 50 image with the tile counts
  \<open>-10\<close> and \<open>-5\<close> resolves without any failure, to tiles of \<open>-10\<close> by \<open>-10\<close> pixels and no
  padding.
\<close>

theorem negative_tile_count_counterexample:
  "map_sum id geometry
     (resolve exact_floats (count_args (- 10) (Some (- 5)) (Some 16) ''ab'') (gray_image 100 50 0))
   = Inr (16, - 10, - 10, 0, 0, 50, 100)"
  by (simp add: resolve_count_mode [of _ _ 100 50] tile_count_mode_def py_divmod_def Let_def
      pad_with_nonneg geometry_def)

text \<open>
  Claim C6, amended. Geometry resolution validates nothing and clamps nothing. If
  \<open>h_tile_count\<close> or the resolved \<open>v_tile_count\<close> is 0, it attempts the division and fails with
  the \<^verbatim>\<open>ZeroDivisionError\<close> of \<^verbatim>\<open>divmod\<close>. Otherwise, whenever it returns, the tile width is
  \<open>-((-w) div h_tile_count)\<close> and the horizontal padding \<open>(-w) mod h_tile_count\<close>, likewise
  for the height; the tile width is \<open>\<le> 0\<close> for an image of width 0 or a negative tile count,
  and so is the tile height.
\<close>

theorem tile_count_mode_unvalidated:
  assumes mode: "\<not> args_use_tile_dimensions args" and size: "img_size img = (w, h)"
    and n: "args_h_tile_count args = n"
    and v: "resolve_v_tile_count fl args (int w) (int h) = Inr v"
  shows "if n = 0 \<or> v = 0 then resolve fl args img = Inl ZeroDivisionError
         else \<forall>r. resolve fl args img = Inr r \<longrightarrow>
                res_tile_width r = - ((- int w) div n) \<and> res_h_padding r = (- int w) mod n
              \<and> res_tile_height r = - ((- int h) div v) \<and> res_v_padding r = (- int h) mod v
              \<and> ((w = 0 \<or> n < 0) \<longrightarrow> res_tile_width r \<le> 0)
              \<and> ((h = 0 \<or> v < 0) \<longrightarrow> res_tile_height r \<le> 0)"
proof (cases "n = 0 \<or> v = 0")
  case True
  then show ?thesis
    unfolding resolve_count_mode [OF mode size]
    by (auto simp: tile_count_mode_def py_divmod_def Let_def n v)
next
  case False
  have neg: "- ((- int w) div n) \<le> 0" if "w = 0 \<or> n < 0"
    using that by (auto simp: div_int_pos_iff)
  have neg': "- ((- int h) div v) \<le> 0" if "h = 0 \<or> v < 0"
    using that by (auto simp: div_int_pos_iff)
  from False neg neg' show ?thesis
    unfolding resolve_count_mode [OF mode size]
    by (auto simp: tile_count_mode_def py_divmod_def Let_def n v split: sum.splits)
qed

theorem tile_count_mode_unvalidated_witness:
  "resolve exact_floats (count_args 0 (Some 5) (Some 16) ''ab'') (gray_image 100 50 0)
     = Inl ZeroDivisionError"
  using tile_count_mode_unvalidated [of "count_args 0 (Some 5) (Some 16) ''ab''" "gray_image 100 50 0"
      100 50 0 exact_floats 5]
  by simp

text \<open>
  An image of width 0 resolves as well when both tile counts are supplied: to tiles of width
  0, which \<^verbatim>\<open>to_tiles\<close> will later divide by.
\<close>

lemma zero_width_resolves:
  "map_sum id geometry
     (resolve exact_floats (count_args 10 (Some 5) (Some 16) ''ab'') (gray_image 0 50 0))
   = Inr (16, 0, 10, 0, 0, 50, 0)"
  by (simp add: resolve_count_mode [of _ _ 0 50] tile_count_mode_def py_divmod_def Let_def
      pad_with_def np_pad_edge_def geometry_def)

text \<open>The tile-dimension branch stops at the undeclared attribute, whatever its inputs.\<close>

lemma tile_dimension_mode_raises:
  "tile_dimension_mode fl args w h frame = Inl (AttributeError ''absolute_tile_width'')"
  by (simp add: tile_dimension_mode_def args_absolute_tile_width_def)

text \<open>
  Claim C5 (tile-dimension mode: the font size defaults to 16 and the tile width is the
  ceiling of the width specification). The code does not get that far: every run with
  \<^verbatim>\<open>-d\<close> ends with \<^verbatim>\<open>AttributeError\<close> at \<^verbatim>\<open>args.absolute_tile_width\<close>, before any tile size is
  computed and with nothing printed.
\<close>

theorem tile_dimension_mode_attribute_error:
  "main fl pil (args\<lparr>args_use_tile_dimensions := True\<rparr>) img
     = ([], Inl (AttributeError ''absolute_tile_width''))"
  by (simp add: main_def resolve_def tile_dimension_mode_raises)


lemma pad_with_same_shape:
  assumes "nrows a = nrows b" "ncols a = ncols b"
  shows "(\<exists>e. pad_with a hp vp = Inl e \<and> pad_with b hp vp = Inl e)
       \<or> (\<exists>p q. pad_with a hp vp = Inr p \<and> pad_with b hp vp = Inr q
                \<and> nrows p = nrows q \<and> ncols p = ncols q)"
  using assms by (simp add: pad_with_def np_pad_edge_def Let_def)

lemma tile_count_mode_same_geometry:
  assumes shape: "nrows a = nrows b" "ncols a = ncols b"
    and fs: "args_font_size args1 = args_font_size args2"
    and hc: "args_h_tile_count args1 = args_h_tile_count args2"
    and vc: "args_v_tile_count args1 = args_v_tile_count args2"
    and tw: "args_tile_width args1 = args_tile_width args2"
    and th: "args_tile_height args1 = args_tile_height args2"
  shows "map_sum id geometry (tile_count_mode fl args1 w h a)
       = map_sum id geometry (tile_count_mode fl args2 w h b)"
proof -
  have v: "resolve_v_tile_count fl args1 w h = resolve_v_tile_count fl args2 w h"
    by (simp add: resolve_v_tile_count_def hc vc tw th cong: option.case_cong)
  have s: "resolve_font_size fl args1 x y = resolve_font_size fl args2 x y" for x y
    by (simp add: resolve_font_size_def fs tw th cong: option.case_cong)
  show ?thesis
  proof (cases "resolve_v_tile_count fl args2 w h")
    case (Inl e)
    then show ?thesis by (simp add: tile_count_mode_def v)
  next
    case (Inr v_tile_count)
    note vres = this
    show ?thesis
    proof (cases "py_divmod (- w) (args_h_tile_count args2)")
      case (Inl e)
      then show ?thesis by (simp add: tile_count_mode_def v vres hc)
    next
      case (Inr wp)
      obtain tile_width_neg h_pad where wp: "wp = (tile_width_neg, h_pad)" by (cases wp)
      note wres = Inr [unfolded wp]
      show ?thesis
      proof (cases "py_divmod (- h) v_tile_count")
        case (Inl e)
        then show ?thesis by (simp add: tile_count_mode_def v vres hc wres)
      next
        case (Inr hq)
        obtain tile_height_neg v_pad where hq: "hq = (tile_height_neg, v_pad)" by (cases hq)
        note hres = Inr [unfolded hq]
        show ?thesis
        proof (cases "resolve_font_size fl args2 (- tile_width_neg) (- tile_height_neg)")
          case (Inl e)
          then show ?thesis by (simp add: tile_count_mode_def v vres hc wres hres s)
        next
          case (Inr font_size)
          from pad_with_same_shape [OF shape, of h_pad v_pad] show ?thesis
            by (auto simp: tile_count_mode_def v vres hc wres hres s Inr geometry_def)
        qed
      qed
    qed
  qed
qed

text \<open>
  Claim C10. The resolved geometry (font size, tile width and height, padding amounts, the
  shape of the padded frame and with it the tile counts), or the exception that resolution
  raises, depends only on the image's width and height and on the sizing arguments: two runs
  that agree on these resolve to the same geometry, whatever their pixel values, contrast,
  character set and font.
\<close>

theorem geometry_depends_on_dimensions_only:
  assumes "img_size img1 = img_size img2"
    and "args_use_tile_dimensions args1 = args_use_tile_dimensions args2"
    and "args_font_size args1 = args_font_size args2"
    and "args_h_tile_count args1 = args_h_tile_count args2"
    and "args_v_tile_count args1 = args_v_tile_count args2"
    and "args_tile_width args1 = args_tile_width args2"
    and "args_tile_height args1 = args_tile_height args2"
  shows "map_sum id geometry (resolve fl args1 img1) = map_sum id geometry (resolve fl args2 img2)"
proof (cases "args_use_tile_dimensions args2")
  case True
  with assms(2) show ?thesis
    by (simp add: resolve_def tile_dimension_mode_raises)
next
  case False
  with assms(1,2) tile_count_mode_same_geometry [OF _ _ assms(3-7)] show ?thesis
    by (simp add: resolve_def Let_def)
qed

theorem geometry_depends_on_dimensions_only_witness:
  "map_sum id geometry
     (resolve exact_floats (count_args 7 (Some 3) None ''ab'') (gray_image 10 10 0))
   = map_sum id geometry
     (resolve exact_floats ((count_args 7 (Some 3) None ''xyz'')\<lparr>args_contrast := 2\<rparr>)
        (gray_image 10 10 255))"
  by (rule geometry_depends_on_dimensions_only) (simp_all add: count_args_def)

section \<open>Tiles are the blocks of the grid\<close>

lemma map_upt_shift: "map f [n..<n + m] = map (\<lambda>i. f (n + i)) [0..<m]"
  by (induction m) simp_all

lemma sub_block_shift:
  "sub_block a y0 x0 h w = map (\<lambda>y. map (\<lambda>x. item a (y0 + y) (x0 + x)) [0..<w]) [0..<h]"
  by (simp add: sub_block_def map_upt_shift)

lemma to_tiles_positive:
  assumes mult: "ncols frame = n * tw" "nrows frame = v * th" and pos: "0 < tw" "0 < th"
  shows "to_tiles frame (int tw) (int th) =
           Inr \<lparr>shape = (v, n, th, tw), strides = (th * (n * tw), tw, n * tw, 1), buffer = flat frame\<rparr>"
proof -
  have d: "int (v * th) div int th = int v" "int (n * tw) div int tw = int n"
    using pos by (simp_all flip: zdiv_int)
  have p: "int v * int th * int n * int tw = int (v * th * (n * tw))"
    by simp
  have r: "reshape4 frame (int v) (int th) (int n) (int tw) =
      Inr \<lparr>shape = (v, th, n, tw), strides = (th * (n * tw), n * tw, tw, 1), buffer = flat frame\<rparr>"
    unfolding reshape4_def mult p
    by (simp add: nat_mult_distrib flip: of_nat_mult)
  show ?thesis
    using pos by (simp add: to_tiles_def py_floordiv_def Let_def mult d r swapaxes12_def)
qed

lemma tile_index:
  "i * (th * (n * tw)) + j * tw + a * (n * tw) + b * Suc 0 = (i * th + a) * (n * tw) + (j * tw + b)"
  by (simp add: algebra_simps)

lemma tile_at_block:
  assumes "ncols frame = n * tw"
  shows "tile_at \<lparr>shape = (v, n, th, tw), strides = (th * (n * tw), tw, n * tw, 1), buffer = flat frame\<rparr> i j
     = sub_block frame (i * th) (j * tw) th tw"
  unfolding tile_at_def sub_block_shift item4_def item_def assms
  by (simp only: view4.simps prod.case One_nat_def tile_index)

text \<open>
  Claim C4. For every grid whose dimensions are exact multiples of the (positive) tile width
  and tile height, \<^verbatim>\<open>to_tiles\<close> returns \<open>v_tile_count\<close> rows of \<open>h_tile_count\<close> tiles each, in
  reading order: the tile at position \<open>(i, j)\<close> is the block of the grid that spans the rows
  \<open>i * tile_height\<close> to \<open>(i + 1) * tile_height - 1\<close> and the columns \<open>j * tile_width\<close> to
  \<open>(j + 1) * tile_width - 1\<close>, which lie inside the grid.
\<close>

theorem to_tiles_row_major_blocks:
  assumes pos: "0 < tile_width" "0 < tile_height"
    and mult: "int (ncols frame) mod tile_width = 0" "int (nrows frame) mod tile_height = 0"
  shows "\<exists>tiles. to_tiles frame tile_width tile_height = Inr tiles
      \<and> length (tile_rows tiles) = nrows frame div nat tile_height
      \<and> (\<forall>i < nrows frame div nat tile_height.
            length (tile_rows tiles ! i) = ncols frame div nat tile_width
          \<and> Suc i * nat tile_height \<le> nrows frame
          \<and> (\<forall>j < ncols frame div nat tile_width.
                Suc j * nat tile_width \<le> ncols frame
              \<and> tile_rows tiles ! i ! j =
                  sub_block frame (i * nat tile_height) (j * nat tile_width)
                    (nat tile_height) (nat tile_width)))"
proof -
  define tw th where "tw = nat tile_width" and "th = nat tile_height"
  define n v where "n = ncols frame div tw" and "v = nrows frame div th"
  have ints: "tile_width = int tw" "tile_height = int th" and p: "0 < tw" "0 < th"
    using pos by (simp_all add: tw_def th_def)
  have "ncols frame mod tw = 0" "nrows frame mod th = 0"
    using mult unfolding ints by (simp_all flip: of_nat_mod)
  then have m: "ncols frame = n * tw" "nrows frame = v * th"
    unfolding n_def v_def by auto
  let ?t = "\<lparr>shape = (v, n, th, tw), strides = (th * (n * tw), tw, n * tw, 1), buffer = flat frame\<rparr>"
  have res: "to_tiles frame tile_width tile_height = Inr ?t"
    unfolding ints by (rule to_tiles_positive [OF m p])
  have rows: "tile_rows ?t = map (\<lambda>i. map (\<lambda>j. sub_block frame (i * th) (j * tw) th tw) [0..<n]) [0..<v]"
  proof -
    have "tile_at ?t i = (\<lambda>j. sub_block frame (i * th) (j * tw) th tw)" for i
      by (rule ext) (rule tile_at_block [OF m(1)])
    then show ?thesis
      unfolding tile_rows_def by (simp only: view4.simps prod.case)
  qed
  have inside: "Suc i * th \<le> nrows frame" if "i < v" for i
    unfolding m using that by (intro mult_le_mono1) simp
  have inside': "Suc j * tw \<le> ncols frame" if "j < n" for j
    unfolding m using that by (intro mult_le_mono1) simp
  show ?thesis
  proof (intro exI [of _ ?t] conjI)
    show "to_tiles frame tile_width tile_height = Inr ?t"
      by (rule res)
    show "length (tile_rows ?t) = nrows frame div nat tile_height"
      unfolding rows by (simp add: v_def th_def)
    show "\<forall>i < nrows frame div nat tile_height.
            length (tile_rows ?t ! i) = ncols frame div nat tile_width
          \<and> Suc i * nat tile_height \<le> nrows frame
          \<and> (\<forall>j < ncols frame div nat tile_width.
                Suc j * nat tile_width \<le> ncols frame
              \<and> tile_rows ?t ! i ! j =
                  sub_block frame (i * nat tile_height) (j * nat tile_width)
                    (nat tile_height) (nat tile_width))"
      unfolding rows tw_def [symmetric] th_def [symmetric] n_def [symmetric] v_def [symmetric]
      using inside inside' by simp
  qed
qed


theorem to_tiles_row_major_blocks_witness:
  "\<exists>tiles. to_tiles (asarray 2 4 (\<lambda>y x. of_nat (4 * y + x) :: u8)) 2 1 = Inr tiles
      \<and> length (tile_rows tiles) = 2
      \<and> tile_rows tiles ! 1 ! 0 = [[4, 5]]
      \<and> tile_rows tiles ! 1 ! 1 = [[6, 7]]"
proof -
  let ?frame = "asarray 2 4 (\<lambda>y x. of_nat (4 * y + x) :: u8)"
  have b: "sub_block ?frame 1 0 1 2 = [[4, 5]]" "sub_block ?frame 1 2 1 2 = [[6, 7]]"
    by (simp_all add: sub_block_def item_asarray upt_rec [of 1] upt_rec [of 2])
  from to_tiles_row_major_blocks [of 2 1 ?frame]
  obtain tiles where t: "to_tiles ?frame 2 1 = Inr tiles" "length (tile_rows tiles) = 2"
    "\<forall>i<2. length (tile_rows tiles ! i) = 2 \<and> Suc i * 1 \<le> 2
       \<and> (\<forall>j<2. Suc j * 2 \<le> 4
             \<and> tile_rows tiles ! i ! j = sub_block ?frame (i * 1) (j * 2) 1 2)"
    by auto
  from t(3) [rule_format, of 1] have "\<forall>j<2. Suc j * 2 \<le> 4
             \<and> tile_rows tiles ! 1 ! j = sub_block ?frame (1 * 1) (j * 2) 1 2"
    by simp
  from this [rule_format, of 0] this [rule_format, of 1]
  have "tile_rows tiles ! 1 ! 0 = [[4, 5]]" "tile_rows tiles ! 1 ! 1 = [[6, 7]]"
    using b by simp_all
  with t(1,2) show ?thesis
    by blast
qed

section \<open>Whole runs\<close>

lemma tile_rows_blocks:
  assumes "ncols frame = n * tw"
  shows "tile_rows \<lparr>shape = (v, n, th, tw), strides = (th * (n * tw), tw, n * tw, 1), buffer = flat frame\<rparr>
     = map (\<lambda>i. map (\<lambda>j. sub_block frame (i * th) (j * tw) th tw) [0..<n]) [0..<v]"
proof -
  have "tile_at \<lparr>shape = (v, n, th, tw), strides = (th * (n * tw), tw, n * tw, 1), buffer = flat frame\<rparr> i
      = (\<lambda>j. sub_block frame (i * th) (j * tw) th tw)" for i
    by (rule ext) (rule tile_at_block [OF assms])
  then show ?thesis
    unfolding tile_rows_def by (simp only: view4.simps prod.case)
qed

lemma map_e_Inr: "(\<And>x. x \<in> set xs \<Longrightarrow> f x = Inr (g x)) \<Longrightarrow> map_e f xs = Inr (map g xs)"
  by (induction xs) simp_all

lemma to_char_glyph_nonneg:
  "0 \<le> tw \<Longrightarrow> 0 \<le> th \<Longrightarrow>
   to_char_glyph pil font tw th c = Inr (asarray (nat th) (nat tw) (draw_text pil font tw th c))"
  by (simp add: to_char_glyph_def)

text \<open>
  A run in tile-count mode with positive sizes and a font that loads reaches the output
  loop: the loop matches, row by row, the blocks of the padded frame against the glyph table.
\<close>

lemma main_tile_count_run:
  fixes w h :: nat and n v :: int
  defines "tw \<equiv> - ((- int w) div n)" and "th \<equiv> - ((- int h) div v)"
  defines "hp \<equiv> (- int w) mod n" and "vp \<equiv> (- int h) mod v"
  assumes mode: "\<not> args_use_tile_dimensions args" and size: "img_size img = (w, h)"
    and dims: "1 \<le> w" "1 \<le> h"
    and n: "args_h_tile_count args = n" "1 \<le> n"
    and v: "resolve_v_tile_count fl args (int w) (int h) = Inr v" "1 \<le> v"
    and s: "resolve_font_size fl args tw th = Inr s"
    and font: "truetype pil (args_font args) s = Inr f"
  shows "main fl pil args img =
      print_rows
        (closest_char (args_char_set args)
           (int16_table (map (\<lambda>c. tolist (asarray (nat th) (nat tw) (draw_text pil f tw th c)))
              (args_char_set args))))
        (map (\<lambda>i. map (\<lambda>j.
            sub_block
              (asarray (h + nat vp) (w + nat hp)
                 (\<lambda>y x. luminance img (args_contrast args)
                    (edge_index h (nat (vp div 2)) y) (edge_index w (nat (hp div 2)) x)))
              (i * nat th) (j * nat tw) (nat th) (nat tw)) [0..<nat n]) [0..<nat v])
        []"
proof -
  let ?padded = "asarray (h + nat vp) (w + nat hp)
                 (\<lambda>y x. luminance img (args_contrast args)
                    (edge_index h (nat (vp div 2)) y) (edge_index w (nat (hp div 2)) x))"
  have res: "resolve fl args img =
      Inr \<lparr>res_font_size = s, res_tile_width = tw, res_tile_height = th,
           res_h_padding = hp, res_v_padding = vp, res_frame = ?padded\<rparr>"
    unfolding tw_def th_def hp_def vp_def
    by (rule resolve_positive [OF mode size dims n v s [unfolded tw_def th_def]])
  have pos: "0 < tw" "0 < th"
    using dims n(2) v(2) by (simp_all add: tw_def th_def neg_div_ceiling)
  have hp0: "0 \<le> hp" and vp0: "0 \<le> vp"
    using n(2) v(2) by (simp_all add: hp_def vp_def)
  have "int w + hp = tw * n" "int h + vp = th * v"
    using neg_mod_excess [of "int w" n] neg_mod_excess [of "int h" v]
    by (simp_all add: tw_def th_def hp_def vp_def)
  then have "int (w + nat hp) = int (nat n * nat tw)" "int (h + nat vp) = int (nat v * nat th)"
    using hp0 vp0 pos n(2) v(2) by (simp_all add: mult.commute)
  then have m: "ncols ?padded = nat n * nat tw" "nrows ?padded = nat v * nat th"
    by (simp_all only: of_nat_eq_iff nrows_asarray ncols_asarray)
  have tiles: "to_tiles ?padded tw th =
      Inr \<lparr>shape = (nat v, nat n, nat th, nat tw),
           strides = (nat th * (nat n * nat tw), nat tw, nat n * nat tw, 1), buffer = flat ?padded\<rparr>"
    using to_tiles_positive [OF m, of ] pos by simp
  have glyphs: "map_e (to_char_glyph pil f tw th) (args_char_set args) =
      Inr (map (\<lambda>c. asarray (nat th) (nat tw) (draw_text pil f tw th c)) (args_char_set args))"
    using pos by (intro map_e_Inr to_char_glyph_nonneg) simp_all
  show ?thesis
    by (simp add: main_def res font glyphs tiles tile_rows_blocks [OF m(1)] comp_def Let_def
        del: One_nat_def)
qed


lemma shape2_sub_block: "0 < th \<Longrightarrow> shape2 (sub_block a y0 x0 th tw) = (th, tw)"
  by (simp add: sub_block_shift shape2_def upt_conv_Cons del: upt_Suc)

lemma closest_char_empty:
  "closest_char [] (int16_table []) t = Inl (if snd (shape2 t) \<le> 1 then AxisError else ValueError)"
  by (simp add: closest_char_def int16_table_def)

lemma print_rows_first_Inl:
  "0 < v \<Longrightarrow> 0 < n \<Longrightarrow> f (g 0 0) = Inl e \<Longrightarrow>
   print_rows f (map (\<lambda>i. map (\<lambda>j. g i j) [0..<n]) [0..<v]) [] = ([], Inl e)"
  by (simp add: upt_conv_Cons del: upt_Suc)





lemma map_e_replicate: "f t = Inr c \<Longrightarrow> map_e f (replicate n t) = Inr (replicate n c)"
  by (induction n) simp_all

lemma print_rows_replicate:
  "map_e f row = Inr line \<Longrightarrow> print_rows f (replicate v row) out = (out @ replicate v line, Inr 0)"
proof (induction v arbitrary: out)
  case 0
  show ?case by simp
next
  case (Suc v)
  then show ?case
    by (simp add: replicate_app_Cons_same)
qed

lemma tolist_single: "tolist (asarray (Suc 0) (Suc 0) px) = [[px 0 0]]"
  by (simp add: tolist_def item_asarray)

lemma edge_index_single: "edge_index (Suc 0) before i = 0"
  by (simp add: edge_index_def)

lemma sub_block_single:
  "i < h \<Longrightarrow> j < w \<Longrightarrow> sub_block (asarray h w px) i j (Suc 0) (Suc 0) = [[px i j]]"
  by (simp add: sub_block_def item_asarray)

lemma closest_char_single:
  assumes "char_set \<noteq> []"
  shows "\<exists>c\<in>set char_set. closest_char char_set (int16_table (map (\<lambda>c. [[g c]]) char_set)) [[p]] = Inr c"
proof -
  have "list_all (has_shape 1 1) (map (\<lambda>c. [[g c]]) char_set)" "has_shape 1 1 [[p]]"
    by (simp_all add: has_shape_def list_all_iff)
  from closest_char_first_min [OF assms _ this]
  obtain k where "k < length char_set"
    "closest_char char_set (int16_table (map (\<lambda>c. [[g c]]) char_set)) [[p]] = Inr (char_set ! k)"
    by auto
  then show ?thesis
    by (auto intro: bexI [of _ "char_set ! k"])
qed

lemma neg_one_div: "1 \<le> n \<Longrightarrow> (- 1) div n = (- 1 :: int)"
  by (rule int_div_pos_eq [of _ _ _ "n - 1"]) simp_all

lemma neg_one_mod: "1 \<le> n \<Longrightarrow> (- 1) mod n = (n - 1 :: int)"
  by (rule int_mod_pos_eq [of _ _ "- 1"]) simp_all

lemma single_pixel_run:
  fixes n v :: int
  assumes mode: "\<not> args_use_tile_dimensions args" and size: "img_size img = (1, 1)"
    and n: "args_h_tile_count args = n" "1 \<le> n"
    and v: "resolve_v_tile_count fl args 1 1 = Inr v" "1 \<le> v"
    and s: "resolve_font_size fl args 1 1 = Inr s"
    and font: "truetype pil (args_font args) s = Inr f"
  shows "main fl pil args img =
      print_rows
        (closest_char (args_char_set args)
           (int16_table (map (\<lambda>c. [[draw_text pil f 1 1 c 0 0]]) (args_char_set args))))
        (replicate (nat v) (replicate (nat n) [[luminance img (args_contrast args) 0 0]])) []"
proof -
  let ?p = "luminance img (args_contrast args) 0 0"
  let ?f = "closest_char (args_char_set args)
             (int16_table (map (\<lambda>c. [[draw_text pil f 1 1 c 0 0]]) (args_char_set args)))"
  have d: "(- 1) div n = - 1" "(- 1) div v = - 1" "(- 1) mod n = n - 1" "(- 1) mod v = v - 1"
    using n(2) v(2) by (simp_all add: neg_one_div neg_one_mod)
  have cnt: "Suc (nat (n - 1)) = nat n" "Suc (nat (v - 1)) = nat v"
    using n(2) v(2) by simp_all
  have run: "main fl pil args img =
      print_rows ?f
        (map (\<lambda>i. map (\<lambda>j. sub_block (asarray (nat v) (nat n) (\<lambda>y x. ?p)) i j (Suc 0) (Suc 0))
           [0..<nat n]) [0..<nat v]) []"
    using main_tile_count_run [of args img 1 1 n fl v s pil f, OF mode size _ _ n]
      v s font
    by (simp add: d cnt tolist_single edge_index_single)
  have rows: "map (\<lambda>i. map (\<lambda>j. sub_block (asarray (nat v) (nat n) (\<lambda>y x. ?p)) i j (Suc 0) (Suc 0))
           [0..<nat n]) [0..<nat v] = replicate (nat v) (replicate (nat n) [[?p]])"
  proof -
    have inner: "map (\<lambda>j. sub_block (asarray (nat v) (nat n) (\<lambda>y x. ?p)) i j (Suc 0) (Suc 0))
        [0..<nat n] = replicate (nat n) [[?p]]" if "i < nat v" for i
    proof -
      have "map (\<lambda>j. sub_block (asarray (nat v) (nat n) (\<lambda>y x. ?p)) i j (Suc 0) (Suc 0))
          [0..<nat n] = map (\<lambda>j. [[?p]]) [0..<nat n]"
        using that by (intro map_cong refl) (simp add: sub_block_single)
      then show ?thesis
        by (simp add: map_replicate_const)
    qed
    have "map (\<lambda>i. map (\<lambda>j. sub_block (asarray (nat v) (nat n) (\<lambda>y x. ?p)) i j (Suc 0) (Suc 0))
           [0..<nat n]) [0..<nat v] = map (\<lambda>i. replicate (nat n) [[?p]]) [0..<nat v]"
      by (intro map_cong refl) (simp add: inner)
    then show ?thesis
      by (simp add: map_replicate_const)
  qed
  show ?thesis
    unfolding run rows ..
qed




text \<open>
  When the vertical count is left to be derived, a 1 by 1 image with one horizontal tile gets
  \<open>round(0.4) = 0\<close> vertical tiles, and the run ends with \<^verbatim>\<open>ZeroDivisionError\<close> (shown with
  the floating-point expression evaluated exactly).
\<close>

lemma single_pixel_derived_count_zero:
  "main exact_floats block_font (count_args 1 None (Some 16) ''ab'') (gray_image 1 1 0)
     = ([], Inl ZeroDivisionError)"
proof -
  have f: "\<lfloor>(2 :: rat) / 5\<rfloor> = 0"
    by (rule floor_unique) simp_all
  have r: "py_round (2 / 5) = 0"
    by (simp add: py_round_def f Let_def)
  have v: "resolve_v_tile_count exact_floats (count_args 1 None (Some 16) ''ab'') 1 1 = Inr 0"
    by (simp add: resolve_v_tile_count_def exact_floats_def count_args_def r)
  show ?thesis
    by (simp add: main_def resolve_def tile_count_mode_def v py_divmod_def Let_def)
qed

end
